theory Spec2Isabelle
  imports Main "HOL-Library.AList"
begin

section \<open>String helpers of the Python built-ins used by the generator\<close>

text \<open>
  Python strings are modelled as \<open>string\<close>. The case conversions of \<open>str.capitalize\<close>
  are modelled for the ASCII letters; every other character is left as it is.
\<close>

definition upper_char :: "char \<Rightarrow> char" where
  "upper_char c =
     (case map_of (zip ''abcdefghijklmnopqrstuvwxyz'' ''ABCDEFGHIJKLMNOPQRSTUVWXYZ'') c of
        None \<Rightarrow> c | Some u \<Rightarrow> u)"

definition lower_char :: "char \<Rightarrow> char" where
  "lower_char c =
     (case map_of (zip ''ABCDEFGHIJKLMNOPQRSTUVWXYZ'' ''abcdefghijklmnopqrstuvwxyz'') c of
        None \<Rightarrow> c | Some l \<Rightarrow> l)"

text \<open>\<open>word.capitalize()\<close>: first character upper-cased, the rest lower-cased.\<close>

fun capitalize :: "string \<Rightarrow> string" where
  "capitalize [] = []"
| "capitalize (c # cs) = upper_char c # map lower_char cs"

text \<open>
  \<open>s.split(sep)\<close> for a one-character separator: the pieces between the separators,
  empty pieces kept, so the result is never the empty list (\<open>''.split('_') = ['']\<close>).
\<close>

fun split :: "char \<Rightarrow> string \<Rightarrow> string list" where
  "split sep [] = [[]]"
| "split sep (c # cs) =
     (if c = sep then [] # split sep cs
      else (case split sep cs of
              [] \<Rightarrow> [[c]]
            | w # ws \<Rightarrow> (c # w) # ws))"

text \<open>\<open>s.rstrip('s')\<close>: every trailing \<open>s\<close> is removed, not only one.\<close>

definition rstrip :: "string \<Rightarrow> char \<Rightarrow> string" where
  "rstrip s c = rev (dropWhile (\<lambda>x. x = c) (rev s))"

definition to_camel_case :: "string \<Rightarrow> string" where
  "to_camel_case snake_str =
     (let components = split (CHR ''_'') snake_str
      in hd components @ concat (map capitalize (tl components)))"

definition to_pascal_case :: "string \<Rightarrow> string" where
  "to_pascal_case snake_str =
     (let components = split (CHR ''_'') snake_str
      in concat (map capitalize components))"

section \<open>Parsed JSON values\<close>

text \<open>
  The values \<open>json.load\<close> returns: \<open>None\<close>, \<open>bool\<close>, \<open>int\<close>, \<open>float\<close>, \<open>str\<close>,
  \<open>list\<close> and \<open>dict\<close>. A \<open>dict\<close> is the list of its items in insertion order. The
  analysis never looks inside a float, so its representation \<open>'f\<close> is left open. The
  discriminators are the \<open>isinstance\<close> tests of the source.
\<close>

datatype 'f json =
    is_None: JNull
  | is_bool: JBool bool
  | is_int: JInt int
  | is_float: JFloat 'f
  | is_str: JStr (str_of: string)
  | is_list: JArr (elements: "'f json list")
  | is_dict: JObj (items: "(string \<times> 'f json) list")

section \<open>The ISO parsers of the standard library\<close>

text \<open>
  \<open>date.fromisoformat\<close>, \<open>time.fromisoformat\<close> and \<open>datetime.fromisoformat\<close> belong to
  Python's standard library, not to the generator. Each is taken as a parameter: the
  predicate says on which strings the parser returns without raising.
\<close>

record fromisoformat =
  date_parses :: "string \<Rightarrow> bool"
  time_parses :: "string \<Rightarrow> bool"
  datetime_parses :: "string \<Rightarrow> bool"

text \<open>
  The three validators catch every exception. On a value that is not a \<open>str\<close> the
  parser raises \<open>TypeError\<close>, so the validator returns \<open>False\<close>.
\<close>

definition date_valid :: "fromisoformat \<Rightarrow> 'f json \<Rightarrow> bool" where
  "date_valid lib v = (is_str v \<and> date_parses lib (str_of v))"

definition datetime_valid :: "fromisoformat \<Rightarrow> 'f json \<Rightarrow> bool" where
  "datetime_valid lib v = (is_str v \<and> datetime_parses lib (str_of v))"

definition time_valid :: "fromisoformat \<Rightarrow> 'f json \<Rightarrow> bool" where
  "time_valid lib v = (is_str v \<and> time_parses lib (str_of v))"

section \<open>Type inference: \<open>get_java_type\<close>\<close>

function get_java_type :: "fromisoformat \<Rightarrow> 'f json \<Rightarrow> string \<Rightarrow> string" where
  "get_java_type lib v field_name =
     (if is_None v then ''String''
      else if date_valid lib v then ''LocalDate''
      else if time_valid lib v then ''LocalTime''
      else if datetime_valid lib v then ''LocalDateTime''
      else if is_bool v then ''Boolean''
      else if is_int v then ''Integer''
      else if is_float v then ''Double''
      else if is_str v then ''String''
      else if is_list v then
        (case elements v of
           [] \<Rightarrow> ''List<String>''
         | first_element # _ \<Rightarrow>
             if is_dict first_element
             then ''List<'' @ to_pascal_case (rstrip field_name (CHR ''s'')) @ ''>''
             else ''List<'' @ get_java_type lib first_element [] @ ''>'')
      else if is_dict v then to_pascal_case field_name
      else ''String'')"
  by pat_completeness auto
termination
proof (relation "measure (\<lambda>(lib, v, field_name). size v)")
  show "wf (measure (\<lambda>(lib, v, field_name). size v))"
    by simp
next
  fix lib :: fromisoformat and v :: "'f json" and field_name :: string
    and first_element :: "'f json" and rest :: "'f json list"
  assume "is_list v" and "elements v = first_element # rest"
  then show "((lib, first_element, []), (lib, v, field_name))
      \<in> measure (\<lambda>(lib, v, field_name). size v)"
    by (cases v) auto
qed

declare get_java_type.simps [simp del]

section \<open>The schema map\<close>

text \<open>
  \<open>classes\<close> is a \<open>dict\<close> from class name to a \<open>dict\<close> from Java field name to
  \<open>{'type': ..., 'original_name': ...}\<close>. A Python \<open>dict\<close> keeps insertion order, and
  assigning to a key that is present keeps the key's position: both are association
  lists, written with \<open>AList.update\<close>.
\<close>

record field_info =
  type :: string
  original_name :: string

type_synonym fields = "(string \<times> field_info) list"
type_synonym classes = "(string \<times> fields) list"

text \<open>\<open>if current_class_name not in classes: classes[current_class_name] = {}\<close>\<close>

definition ensure_class :: "string \<Rightarrow> classes \<Rightarrow> classes" where
  "ensure_class current_class_name classes =
     (if current_class_name \<notin> set (map fst classes)
      then classes @ [(current_class_name, [])]
      else classes)"

text \<open>
  \<open>classes[current_class_name][java_field_name] = info\<close>. The source reaches this line
  only after \<open>ensure_class\<close>, and no entry is ever deleted, so the class is present
  (\<open>KeyError\<close> cannot occur); where it is absent the model leaves the map unchanged.
\<close>

definition set_field :: "string \<Rightarrow> string \<Rightarrow> field_info \<Rightarrow> classes \<Rightarrow> classes" where
  "set_field current_class_name java_field_name info classes =
     AList.map_entry current_class_name (AList.update java_field_name info) classes"

section \<open>The schema builder: \<open>analyze_json_structure\<close>\<close>

text \<open>
  The inner function \<open>analyze_object\<close> mutates the enclosing \<open>classes\<close>; the model
  passes the map in and returns it. \<open>analyze_fields\<close> is the loop
  \<open>for key, value in obj.items()\<close>, and \<open>analyze_rest\<close> is the loop
  \<open>for item in value[1:]\<close> (the same loop body serves \<open>for item in data[1:]\<close>).
\<close>

function analyze_object :: "fromisoformat \<Rightarrow> (string \<times> 'f json) list \<Rightarrow> string \<Rightarrow> classes \<Rightarrow> classes"
  and analyze_fields :: "fromisoformat \<Rightarrow> (string \<times> 'f json) list \<Rightarrow> string \<Rightarrow> classes \<Rightarrow> classes"
  and analyze_rest :: "fromisoformat \<Rightarrow> 'f json list \<Rightarrow> string \<Rightarrow> classes \<Rightarrow> classes"
where
  "analyze_object lib obj current_class_name classes =
     analyze_fields lib obj current_class_name (ensure_class current_class_name classes)"
| "analyze_fields lib [] current_class_name classes = classes"
| "analyze_fields lib ((key, v) # remaining) current_class_name classes =
     (let java_field_name = to_camel_case key;
          java_type = get_java_type lib v key;
          classes1 = set_field current_class_name java_field_name
                       \<lparr>type = java_type, original_name = key\<rparr> classes;
          classes2 =
            (if is_dict v \<and> items v \<noteq> [] then
               analyze_object lib (items v) (to_pascal_case key) classes1
             else if is_list v \<and> elements v \<noteq> [] then
               (let first_element = hd (elements v) in
                if is_dict first_element then
                  (let nested_class_name = to_pascal_case (rstrip key (CHR ''s''))
                   in analyze_rest lib (tl (elements v)) nested_class_name
                        (analyze_object lib (items first_element) nested_class_name classes1))
                else classes1)
             else classes1)
      in analyze_fields lib remaining current_class_name classes2)"
| "analyze_rest lib [] nested_class_name classes = classes"
| "analyze_rest lib (item # remaining) nested_class_name classes =
     analyze_rest lib remaining nested_class_name
       (if is_dict item then analyze_object lib (items item) nested_class_name classes
        else classes)"
  by pat_completeness auto

termination
proof (relation "measure (\<lambda>x. case x of
      Inl (lib, obj, cn, cl) \<Rightarrow> Suc (size_list (size_prod (\<lambda>_. 0) size) obj)
    | Inr (Inl (lib, obj, cn, cl)) \<Rightarrow> size_list (size_prod (\<lambda>_. 0) size) obj
    | Inr (Inr (lib, xs, cn, cl)) \<Rightarrow> size_list size xs)", goal_cases)
  have dict: "size_list (size_prod (\<lambda>_. 0) size) (items v) < size v"
    if "is_dict v" for v :: "'f json"
    using that by (cases v) simp_all
  have first: "size (hd (elements v)) < size v"
    if "is_list v" "elements v \<noteq> []" for v :: "'f json"
    using that by (cases v; cases "elements v") auto
  have others: "size_list size (tl (elements v)) < size v"
    if "is_list v" for v :: "'f json"
    using that by (cases v; cases "elements v") auto
  have first_dict: "size_list (size_prod (\<lambda>_. 0) size) (items (hd (elements v))) < size v"
    if "is_list v" "elements v \<noteq> []" "is_dict (hd (elements v))" for v :: "'f json"
    using that dict [of "hd (elements v)"] first [of v] by simp
  {
    case 1
    show ?case by simp
  next
    case 2
    show ?case by simp
  next
    case 3
    then show ?case using dict by (fastforce simp: less_Suc_eq trans_less_add1)
  next
    case 4
    then show ?case using first_dict by (fastforce simp: less_Suc_eq trans_less_add1)
  next
    case 5
    then show ?case using others by (fastforce simp: less_Suc_eq trans_less_add1)
  next
    case 6
    show ?case by simp
  next
    case 7
    then show ?case using dict by (fastforce simp: less_Suc_eq trans_less_add1)
  next
    case 8
    show ?case by simp
  }
qed

declare analyze_object.simps [simp del]
declare analyze_fields.simps(2) [simp del]

definition analyze_json_structure :: "fromisoformat \<Rightarrow> 'f json \<Rightarrow> string \<Rightarrow> classes" where
  "analyze_json_structure lib data class_name =
     (if is_dict data then analyze_object lib (items data) class_name []
      else if is_list data \<and> elements data \<noteq> [] then
        (let first_element = hd (elements data) in
         if is_dict first_element then
           analyze_rest lib (tl (elements data)) class_name
             (analyze_object lib (items first_element) class_name [])
         else [])
      else [])"

section \<open>The writes of the walk, in order\<close>

text \<open>
  The walk changes \<open>classes\<close> by two statements only: the guarded creation of a class
  (line 80) and the assignment of a field (line 87). \<open>writes_object\<close> lists the writes
  of one call of \<open>analyze_object\<close> in the order in which the call performs them, nested
  calls included; \<open>replay\<close> performs a list of writes.
\<close>

datatype mutation =
    Ensure string
  | Assign string string field_info

fun apply_mutation :: "mutation \<Rightarrow> classes \<Rightarrow> classes" where
  "apply_mutation (Ensure current_class_name) classes = ensure_class current_class_name classes"
| "apply_mutation (Assign current_class_name java_field_name info) classes =
     set_field current_class_name java_field_name info classes"

definition replay :: "mutation list \<Rightarrow> classes \<Rightarrow> classes" where
  "replay ms classes = fold apply_mutation ms classes"

function writes_object :: "fromisoformat \<Rightarrow> (string \<times> 'f json) list \<Rightarrow> string \<Rightarrow> mutation list"
  and writes_fields :: "fromisoformat \<Rightarrow> (string \<times> 'f json) list \<Rightarrow> string \<Rightarrow> mutation list"
  and writes_rest :: "fromisoformat \<Rightarrow> 'f json list \<Rightarrow> string \<Rightarrow> mutation list"
where
  "writes_object lib obj current_class_name =
     Ensure current_class_name # writes_fields lib obj current_class_name"
| "writes_fields lib [] current_class_name = []"
| "writes_fields lib ((key, v) # remaining) current_class_name =
     Assign current_class_name (to_camel_case key)
       \<lparr>type = get_java_type lib v key, original_name = key\<rparr>
     # (if is_dict v \<and> items v \<noteq> [] then
          writes_object lib (items v) (to_pascal_case key)
        else if is_list v \<and> elements v \<noteq> [] \<and> is_dict (hd (elements v)) then
          writes_object lib (items (hd (elements v))) (to_pascal_case (rstrip key (CHR ''s'')))
          @ writes_rest lib (tl (elements v)) (to_pascal_case (rstrip key (CHR ''s'')))
        else [])
     @ writes_fields lib remaining current_class_name"
| "writes_rest lib [] nested_class_name = []"
| "writes_rest lib (item # remaining) nested_class_name =
     (if is_dict item then writes_object lib (items item) nested_class_name else [])
     @ writes_rest lib remaining nested_class_name"
  by pat_completeness auto
termination
proof (relation "measure (\<lambda>x. case x of
      Inl (lib, obj, cn) \<Rightarrow> Suc (size_list (size_prod (\<lambda>_. 0) size) obj)
    | Inr (Inl (lib, obj, cn)) \<Rightarrow> size_list (size_prod (\<lambda>_. 0) size) obj
    | Inr (Inr (lib, xs, cn)) \<Rightarrow> size_list size xs)", goal_cases)
  have dict: "size_list (size_prod (\<lambda>_. 0) size) (items v) < size v"
    if "is_dict v" for v :: "'f json"
    using that by (cases v) simp_all
  have first: "size (hd (elements v)) < size v"
    if "is_list v" "elements v \<noteq> []" for v :: "'f json"
    using that by (cases v; cases "elements v") auto
  have others: "size_list size (tl (elements v)) < size v"
    if "is_list v" for v :: "'f json"
    using that by (cases v; cases "elements v") auto
  have first_dict: "size_list (size_prod (\<lambda>_. 0) size) (items (hd (elements v))) < size v"
    if "is_list v" "elements v \<noteq> []" "is_dict (hd (elements v))" for v :: "'f json"
    using that dict [of "hd (elements v)"] first [of v] by simp
  {
    case 1
    show ?case by simp
  next
    case 2
    show ?case by simp
  next
    case 3
    then show ?case using dict by (fastforce simp: less_Suc_eq trans_less_add1)
  next
    case 4
    then show ?case using first_dict by (fastforce simp: less_Suc_eq trans_less_add1)
  next
    case 5
    then show ?case using others by (fastforce simp: less_Suc_eq trans_less_add1)
  next
    case 6
    show ?case by simp
  next
    case 7
    then show ?case using dict by (fastforce simp: less_Suc_eq trans_less_add1)
  next
    case 8
    show ?case by simp
  }
qed

declare writes_object.simps [simp del]
declare writes_fields.simps(2) [simp del]

text \<open>The writes of \<open>analyze_json_structure\<close>, by the same case distinction on the root.\<close>

definition writes_json_structure :: "fromisoformat \<Rightarrow> 'f json \<Rightarrow> string \<Rightarrow> mutation list" where
  "writes_json_structure lib data class_name =
     (if is_dict data then writes_object lib (items data) class_name
      else if is_list data \<and> elements data \<noteq> [] \<and> is_dict (hd (elements data)) then
        writes_object lib (items (hd (elements data))) class_name
        @ writes_rest lib (tl (elements data)) class_name
      else [])"

text \<open>Reading the schema map: the entry of a field in a class, and the class names.\<close>

definition field_of :: "classes \<Rightarrow> string \<Rightarrow> string \<Rightarrow> field_info option" where
  "field_of classes class_name java_field_name =
     (case map_of classes class_name of
        None \<Rightarrow> None
      | Some class_fields \<Rightarrow> map_of class_fields java_field_name)"

definition class_names :: "classes \<Rightarrow> string list" where
  "class_names classes = map fst classes"

text \<open>The last assignment to a field of a class in a list of writes, if there is one.\<close>

fun last_assigned :: "mutation list \<Rightarrow> string \<Rightarrow> string \<Rightarrow> field_info option" where
  "last_assigned [] class_name java_field_name = None"
| "last_assigned (Ensure c # ms) class_name java_field_name =
     last_assigned ms class_name java_field_name"
| "last_assigned (Assign c f info # ms) class_name java_field_name =
     (case last_assigned ms class_name java_field_name of
        Some later \<Rightarrow> Some later
      | None \<Rightarrow> if c = class_name \<and> f = java_field_name then Some info else None)"

text \<open>
  Three notions about lists of writes and schema maps, used to reason about the walk:
  the classes a list of writes creates, whether every assignment in it finds its class
  present, and whether a schema map has one entry per class name and per field name.
\<close>

fun created :: "mutation list \<Rightarrow> string set" where
  "created [] = {}"
| "created (Ensure c # ms) = insert c (created ms)"
| "created (Assign c f info # ms) = created ms"

fun guarded :: "string set \<Rightarrow> mutation list \<Rightarrow> bool" where
  "guarded present [] = True"
| "guarded present (Ensure c # ms) = guarded (insert c present) ms"
| "guarded present (Assign c f info # ms) = (c \<in> present \<and> guarded present ms)"

definition one_entry_per_name :: "classes \<Rightarrow> bool" where
  "one_entry_per_name classes =
     (distinct (class_names classes) \<and> list_all (\<lambda>(c, fs). distinct (map fst fs)) classes)"

section \<open>Type descriptors\<close>

text \<open>
  The specification names the results of the inference by a variant type. The source
  returns the Java type name; \<open>java_name\<close> is the name the source returns for each
  variant.
\<close>

datatype primitive_kind = PBoolean | PInteger | PDouble | PString

datatype type_descriptor =
    Primitive primitive_kind
  | TemporalDate
  | TemporalTime
  | TemporalDateTime
  | ListOf type_descriptor
  | ObjectRef string

fun java_name :: "type_descriptor \<Rightarrow> string" where
  "java_name (Primitive PBoolean) = ''Boolean''"
| "java_name (Primitive PInteger) = ''Integer''"
| "java_name (Primitive PDouble) = ''Double''"
| "java_name (Primitive PString) = ''String''"
| "java_name TemporalDate = ''LocalDate''"
| "java_name TemporalTime = ''LocalTime''"
| "java_name TemporalDateTime = ''LocalDateTime''"
| "java_name (ListOf t) = ''List<'' @ java_name t @ ''>''"
| "java_name (ObjectRef class_name) = class_name"

section \<open>A sample instance of the ISO parsers\<close>

text \<open>
  An instance of the parser parameter for the examples: it accepts the extended forms
  \<open>YYYY-MM-DD\<close>, \<open>HH:MM:SS\<close> and \<open>YYYY-MM-DDTHH:MM:SS\<close> with the fields in their
  calendar and clock ranges, and nothing else.
\<close>

definition digit_value :: "char \<Rightarrow> nat option" where
  "digit_value c = map_of (zip ''0123456789'' [0, 1, 2, 3, 4, 5, 6, 7, 8, 9]) c"

fun number_of :: "string \<Rightarrow> nat option" where
  "number_of [] = None"
| "number_of cs =
     fold (\<lambda>c acc. case (acc, digit_value c) of
                      (Some n, Some d) \<Rightarrow> Some (10 * n + d)
                    | _ \<Rightarrow> None) cs (Some 0)"

definition days_in_month :: "nat \<Rightarrow> nat \<Rightarrow> nat" where
  "days_in_month y m =
     (if m = 2 then
        (if y mod 400 = 0 then 29 else if y mod 100 = 0 then 28
         else if y mod 4 = 0 then 29 else 28)
      else if m = 4 then 30 else if m = 6 then 30 else if m = 9 then 30
      else if m = 11 then 30 else 31)"

definition extended_date :: "string \<Rightarrow> bool" where
  "extended_date s =
     (length s = 10 \<and> s ! 4 = CHR ''-'' \<and> s ! 7 = CHR ''-'' \<and>
      (case (number_of (take 4 s), number_of (take 2 (drop 5 s)), number_of (drop 8 s)) of
         (Some y, Some m, Some d) \<Rightarrow>
           1 \<le> y \<and> 1 \<le> m \<and> m \<le> 12 \<and> 1 \<le> d \<and> d \<le> days_in_month y m
       | _ \<Rightarrow> False))"

definition extended_time :: "string \<Rightarrow> bool" where
  "extended_time s =
     (length s = 8 \<and> s ! 2 = CHR '':'' \<and> s ! 5 = CHR '':'' \<and>
      (case (number_of (take 2 s), number_of (take 2 (drop 3 s)), number_of (drop 6 s)) of
         (Some h, Some m, Some sec) \<Rightarrow> h < 24 \<and> m < 60 \<and> sec < 60
       | _ \<Rightarrow> False))"

definition extended_datetime :: "string \<Rightarrow> bool" where
  "extended_datetime s =
     (length s = 19 \<and> s ! 10 = CHR ''T'' \<and> extended_date (take 10 s)
      \<and> extended_time (drop 11 s))"

definition extended_forms :: fromisoformat where
  "extended_forms =
     \<lparr>date_parses = extended_date, time_parses = extended_time,
      datetime_parses = extended_datetime\<rparr>"

section \<open>The inference with its exceptions written out\<close>







section \<open>The inference rule by rule\<close>

lemma get_java_type_null: "get_java_type lib JNull h = ''String''"
  by (simp add: get_java_type.simps)

lemma get_java_type_str:
  "get_java_type lib (JStr s) h =
     (if date_parses lib s then ''LocalDate''
      else if time_parses lib s then ''LocalTime''
      else if datetime_parses lib s then ''LocalDateTime''
      else ''String'')"
  by (simp add: get_java_type.simps date_valid_def time_valid_def datetime_valid_def)

lemma get_java_type_bool: "get_java_type lib (JBool b) h = ''Boolean''"
  by (simp add: get_java_type.simps date_valid_def time_valid_def datetime_valid_def)

lemma get_java_type_int: "get_java_type lib (JInt i) h = ''Integer''"
  by (simp add: get_java_type.simps date_valid_def time_valid_def datetime_valid_def)

lemma get_java_type_float: "get_java_type lib (JFloat x) h = ''Double''"
  by (simp add: get_java_type.simps date_valid_def time_valid_def datetime_valid_def)

lemma get_java_type_empty_list: "get_java_type lib (JArr []) h = ''List<String>''"
  by (simp add: get_java_type.simps date_valid_def time_valid_def datetime_valid_def)

lemma get_java_type_list:
  "get_java_type lib (JArr (first_element # others)) h =
     (if is_dict first_element then ''List<'' @ to_pascal_case (rstrip h (CHR ''s'')) @ ''>''
      else ''List<'' @ get_java_type lib first_element [] @ ''>'')"
  by (simp add: get_java_type.simps [of lib "JArr (first_element # others)"]
      date_valid_def time_valid_def datetime_valid_def)

lemma get_java_type_dict: "get_java_type lib (JObj obj) h = to_pascal_case h"
  by (simp add: get_java_type.simps date_valid_def time_valid_def datetime_valid_def)

lemmas get_java_type_cases = get_java_type_null get_java_type_str get_java_type_bool
  get_java_type_int get_java_type_float get_java_type_empty_list get_java_type_list
  get_java_type_dict


text \<open>\<open>split\<close> never returns the empty list, so \<open>components[0]\<close> exists.\<close>

lemma split_not_empty: "split sep s \<noteq> []"
  by (induction s) (auto split: list.splits)

lemmas naming_defs = to_pascal_case_def to_camel_case_def rstrip_def upper_char_def
  lower_char_def

lemmas sample_defs = extended_forms_def extended_date_def extended_time_def
  extended_datetime_def digit_value_def days_in_month_def

lemmas walk_simps = analyze_json_structure_def analyze_object.simps analyze_fields.simps(2)
  ensure_class_def set_field_def get_java_type_cases naming_defs

lemmas writes_simps = writes_json_structure_def writes_object.simps writes_fields.simps(2)
  get_java_type_cases naming_defs

text \<open>
  Claim C2. The temporal rules are tried in the order date, time, date-time, and all
  three before the plain-string rule: a string is inferred as a date exactly when the
  date parser accepts it, as a time when the date parser rejects it and the time parser
  accepts it, and so on. With the parsers behaving on the four example strings as
  Python's do, \<open>"2024-01-15"\<close> is a \<open>TemporalDate\<close>, \<open>"13:45:00"\<close> a \<open>TemporalTime\<close>,
  \<open>"2024-01-15T13:45:00"\<close> a \<open>TemporalDateTime\<close> and \<open>"hello"\<close> a plain string.
\<close>

theorem temporal_rules_in_order:
  assumes "date_parses lib ''2024-01-15''"
    and "\<not> date_parses lib ''13:45:00''"
    and "time_parses lib ''13:45:00''"
    and "\<not> date_parses lib ''2024-01-15T13:45:00''"
    and "\<not> time_parses lib ''2024-01-15T13:45:00''"
    and "datetime_parses lib ''2024-01-15T13:45:00''"
    and "\<not> date_parses lib ''hello''"
    and "\<not> time_parses lib ''hello''"
    and "\<not> datetime_parses lib ''hello''"
  shows "get_java_type lib (JStr ''2024-01-15'') h = java_name TemporalDate
    \<and> get_java_type lib (JStr ''13:45:00'') h = java_name TemporalTime
    \<and> get_java_type lib (JStr ''2024-01-15T13:45:00'') h = java_name TemporalDateTime
    \<and> get_java_type lib (JStr ''hello'') h = java_name (Primitive PString)
    \<and> (\<forall>s. get_java_type lib (JStr s) h = java_name
          (if date_parses lib s then TemporalDate
           else if time_parses lib s then TemporalTime
           else if datetime_parses lib s then TemporalDateTime
           else Primitive PString))"
  using assms by (simp add: get_java_type_str)

theorem temporal_rules_in_order_witness:
  "get_java_type extended_forms (JStr ''2024-01-15'' :: unit json) ''created_at'' = ''LocalDate''
   \<and> get_java_type extended_forms (JStr ''13:45:00'' :: unit json) ''created_at'' = ''LocalTime''
   \<and> get_java_type extended_forms (JStr ''2024-01-15T13:45:00'' :: unit json) ''created_at''
       = ''LocalDateTime''
   \<and> get_java_type extended_forms (JStr ''hello'' :: unit json) ''created_at'' = ''String''"
proof -
  have d1: "date_parses extended_forms ''2024-01-15''"
    by (simp add: sample_defs)
  have t1: "\<not> date_parses extended_forms ''13:45:00''"
    by (simp add: sample_defs)
  have t2: "time_parses extended_forms ''13:45:00''"
    by (simp add: sample_defs)
  have s1: "\<not> date_parses extended_forms ''2024-01-15T13:45:00''"
    by (simp add: sample_defs)
  have s2: "\<not> time_parses extended_forms ''2024-01-15T13:45:00''"
    by (simp add: sample_defs)
  have s3: "datetime_parses extended_forms ''2024-01-15T13:45:00''"
    by (simp add: sample_defs)
  have h1: "\<not> date_parses extended_forms ''hello''"
    by (simp add: sample_defs)
  have h2: "\<not> time_parses extended_forms ''hello''"
    by (simp add: sample_defs)
  have h3: "\<not> datetime_parses extended_forms ''hello''"
    by (simp add: sample_defs)
  note r = temporal_rules_in_order [OF d1 t1 t2 s1 s2 s3 h1 h2 h3, of "''created_at''"]
  from r [THEN conjunct1] r [THEN conjunct2, THEN conjunct1]
    r [THEN conjunct2, THEN conjunct2, THEN conjunct1]
    r [THEN conjunct2, THEN conjunct2, THEN conjunct2, THEN conjunct1]
  show ?thesis by simp
qed

text \<open>
  Claim C5, evaluated on the code. An empty object is still a \<open>dict\<close>: the object rule
  answers with the Pascal-cased hint, and the result is not the fallback \<open>String\<close>.
\<close>

theorem empty_object_inferred_as_object_ref:
  "get_java_type lib (JObj []) ''addr'' = ''Addr''
   \<and> get_java_type lib (JObj []) ''addr'' = java_name (ObjectRef (to_pascal_case ''addr''))
   \<and> get_java_type lib (JObj []) ''addr'' \<noteq> java_name (Primitive PString)"
  by (simp add: get_java_type_dict naming_defs)

text \<open>
  Claim C6, evaluated on the code. For the list \<open>[[{"a": 1}]]\<close> under the hint
  \<open>items\<close> the first element is a list, not an object. The recursive call of line 67
  passes no hint, so the inner list of objects is named from the empty string: the
  result is \<open>List<List<>>\<close>, not the list of the first element's type under the same
  hint, \<open>List<List<Item>>\<close>.
\<close>

theorem nested_list_loses_hint:
  "get_java_type lib (JArr [JArr [JObj [(''a'', JInt 1)]]]) ''items'' = ''List<List<>>''
   \<and> get_java_type lib (JArr [JObj [(''a'', JInt 1)]]) ''items'' = ''List<Item>''
   \<and> java_name (ListOf (ListOf (ObjectRef ''Item''))) = ''List<List<Item>>''
   \<and> get_java_type lib (JArr [JArr [JObj [(''a'', JInt 1)]]]) ''items''
       \<noteq> ''List<'' @ get_java_type lib (JArr [JObj [(''a'', JInt 1)]]) ''items'' @ ''>''
   \<and> analyze_json_structure lib (JObj [(''items'', JArr [JArr [JObj [(''a'', JInt 1)]]])]) ''Root''
       = [(''Root'', [(''items'', \<lparr>type = ''List<List<>>'', original_name = ''items''\<rparr>)])]"
  by (simp add: walk_simps Let_def)






text \<open>
  Claim C10. A root that is neither an object nor a non-empty list (a scalar, \<open>null\<close>,
  the empty list) gives the empty schema map: no class, not even the root class.
\<close>

theorem no_classes_for_other_roots:
  assumes "\<not> is_dict data" and "\<not> (is_list data \<and> elements data \<noteq> [])"
  shows "analyze_json_structure lib data class_name = []"
  using assms unfolding analyze_json_structure_def by (cases "is_list data") simp_all

theorem no_classes_for_other_roots_witness:
  "analyze_json_structure extended_forms (JNull :: unit json) ''Root'' = []
   \<and> analyze_json_structure extended_forms (JInt 5 :: unit json) ''Root'' = []
   \<and> analyze_json_structure extended_forms (JStr ''2024-01-15'' :: unit json) ''Root'' = []
   \<and> analyze_json_structure extended_forms (JArr [] :: unit json) ''Root'' = []"
  using no_classes_for_other_roots [of "JNull :: unit json" extended_forms "''Root''"]
    no_classes_for_other_roots [of "JInt 5 :: unit json" extended_forms "''Root''"]
    no_classes_for_other_roots [of "JStr ''2024-01-15'' :: unit json" extended_forms "''Root''"]
    no_classes_for_other_roots [of "JArr [] :: unit json" extended_forms "''Root''"]
  by simp

section \<open>The walk is the replay of its writes\<close>

lemma replay_Nil [simp]: "replay [] classes = classes"
  by (simp add: replay_def)

lemma replay_Cons [simp]: "replay (m # ms) classes = replay ms (apply_mutation m classes)"
  by (simp add: replay_def)

lemma replay_append [simp]: "replay (xs @ ys) classes = replay ys (replay xs classes)"
  by (simp add: replay_def)

lemma analyze_is_replay:
  fixes obj :: "(string \<times> 'f json) list" and xs :: "'f json list"
  shows "analyze_object lib obj cn classes = replay (writes_object lib obj cn) classes"
    and "analyze_fields lib obj cn classes = replay (writes_fields lib obj cn) classes"
    and "analyze_rest lib xs cn classes = replay (writes_rest lib xs cn) classes"
proof (induction lib obj cn classes and lib obj cn classes and lib xs cn classes
    rule: analyze_object_analyze_fields_analyze_rest.induct)
  case (1 lib obj current_class_name classes)
  then show ?case
    by (simp add: analyze_object.simps writes_object.simps)
next
  case (2 lib current_class_name classes)
  show ?case by simp
next
  case (3 lib key v remaining current_class_name classes)
  show ?case
    using "3.IH"(1) [OF refl refl refl] "3.IH"(2) [OF refl refl refl _ _ refl _ refl]
      "3.IH"(3) [OF refl refl refl _ _ refl _ refl] "3.IH"(4) [OF refl refl refl refl]
    by (simp add: analyze_fields.simps(2) writes_fields.simps(2) Let_def)
next
  case (4 lib nested_class_name classes)
  show ?case by simp
next
  case (5 lib item remaining nested_class_name classes)
  then show ?case by simp
qed

lemma analyze_json_structure_is_replay:
  "analyze_json_structure lib data class_name
     = replay (writes_json_structure lib data class_name) []"
  by (simp add: analyze_json_structure_def writes_json_structure_def analyze_is_replay Let_def)

subsection \<open>Class names\<close>

lemma created_append [simp]: "created (xs @ ys) = created xs \<union> created ys"
  by (induction xs rule: created.induct) auto

lemma class_names_Nil: "class_names [] = []"
  by (simp add: class_names_def)

lemma class_names_ensure_class:
  "set (class_names (ensure_class c classes)) = insert c (set (class_names classes))"
  by (auto simp: class_names_def ensure_class_def)

lemma map_fst_map_entry: "map fst (AList.map_entry k f xs) = map fst xs"
  by (induction xs) auto

lemma class_names_set_field: "class_names (set_field c f info classes) = class_names classes"
  by (simp add: class_names_def set_field_def map_fst_map_entry)

lemma class_names_replay:
  "set (class_names (replay ms classes)) = set (class_names classes) \<union> created ms"
proof (induction ms arbitrary: classes)
  case Nil
  show ?case by simp
next
  case (Cons m ms)
  show ?case
    by (cases m) (simp_all add: Cons.IH class_names_ensure_class class_names_set_field)
qed

subsection \<open>Field entries\<close>

lemma field_of_ensure_class: "field_of (ensure_class c classes) c' f = field_of classes c' f"
proof (cases "c \<in> set (map fst classes)")
  case True
  then show ?thesis by (simp add: ensure_class_def)
next
  case False
  then have none: "map_of classes c = None"
    by (simp add: map_of_eq_None_iff)
  show ?thesis
  proof (cases "c' = c")
    case True
    with False none show ?thesis
      by (simp add: field_of_def ensure_class_def map_add_def)
  next
    case neq: False
    with False show ?thesis
      by (simp add: field_of_def ensure_class_def map_add_def split: option.splits)
  qed
qed

lemma field_of_set_field:
  assumes "c \<in> set (class_names classes)"
  shows "field_of (set_field c f info classes) c' f'
       = (if c' = c \<and> f' = f then Some info else field_of classes c' f')"
proof -
  from assms have "map_of classes c \<noteq> None"
    by (simp add: class_names_def map_of_eq_None_iff)
  then obtain fs where fs: "map_of classes c = Some fs"
    by blast
  then show ?thesis
    by (simp add: field_of_def set_field_def map_of_map_entry update_conv')
qed

lemma guarded_append:
  "guarded present (xs @ ys) = (guarded present xs \<and> guarded (present \<union> created xs) ys)"
  by (induction present xs rule: guarded.induct) auto

lemma field_of_replay:
  "guarded (set (class_names classes)) ms \<Longrightarrow>
   field_of (replay ms classes) c f =
     (case last_assigned ms c f of Some info \<Rightarrow> Some info | None \<Rightarrow> field_of classes c f)"
proof (induction ms arbitrary: classes)
  case Nil
  show ?case by simp
next
  case (Cons m ms)
  show ?case
  proof (cases m)
    case (Ensure c')
    with Cons.prems have "guarded (set (class_names (ensure_class c' classes))) ms"
      by (simp add: class_names_ensure_class)
    from Cons.IH [OF this] Ensure show ?thesis
      by (simp add: field_of_ensure_class split: option.splits)
  next
    case (Assign c' f' info)
    with Cons.prems have present: "c' \<in> set (class_names classes)"
      and "guarded (set (class_names (set_field c' f' info classes))) ms"
      by (simp_all add: class_names_set_field)
    from Cons.IH [OF this(2)] Assign present show ?thesis
      by (auto simp: field_of_set_field split: option.splits)
  qed
qed

text \<open>Every assignment of the walk finds its class present: \<open>KeyError\<close> cannot occur.\<close>

lemma guarded_writes:
  fixes obj :: "(string \<times> 'f json) list" and xs :: "'f json list"
  shows "guarded present (writes_object lib obj cn)"
    and "cn \<in> present \<Longrightarrow> guarded present (writes_fields lib obj cn)"
    and "guarded present (writes_rest lib xs cn)"
proof (induction lib obj cn and lib obj cn and lib xs cn
    arbitrary: present and present and present
    rule: writes_object_writes_fields_writes_rest.induct)
  case (1 lib obj current_class_name)
  then show ?case by (simp add: writes_object.simps)
next
  case (2 lib current_class_name)
  show ?case by simp
next
  case (3 lib key v remaining current_class_name)
  then show ?case
    by (simp add: writes_fields.simps(2) guarded_append)
next
  case (4 lib nested_class_name)
  show ?case by simp
next
  case (5 lib item remaining nested_class_name)
  then show ?case by (simp add: guarded_append)
qed

lemma guarded_writes_json_structure:
  "guarded present (writes_json_structure lib data class_name)"
  by (simp add: writes_json_structure_def guarded_append guarded_writes)

lemma field_of_analyze_object:
  "field_of (analyze_object lib obj cn classes) c f =
     (case last_assigned (writes_object lib obj cn) c f of
        Some info \<Rightarrow> Some info
      | None \<Rightarrow> field_of classes c f)"
  unfolding analyze_is_replay by (rule field_of_replay) (rule guarded_writes)

lemma field_of_analyze_json_structure:
  "field_of (analyze_json_structure lib data root) c f
     = last_assigned (writes_json_structure lib data root) c f"
proof -
  have "guarded (set (class_names [])) (writes_json_structure lib data root)"
    by (rule guarded_writes_json_structure)
  from field_of_replay [OF this, of c f] show ?thesis
    by (simp add: analyze_json_structure_is_replay field_of_def split: option.splits)
qed

subsection \<open>One entry per name\<close>

lemma one_entry_ensure_class:
  "one_entry_per_name classes \<Longrightarrow> one_entry_per_name (ensure_class c classes)"
  by (simp add: one_entry_per_name_def ensure_class_def class_names_def)

lemma list_all_map_entry:
  "list_all (\<lambda>(c, fs). distinct (map fst fs)) classes \<Longrightarrow>
   list_all (\<lambda>(c, fs). distinct (map fst fs))
     (AList.map_entry c (AList.update f info) classes)"
  by (induction classes) (auto simp: distinct_update)

lemma one_entry_set_field:
  "one_entry_per_name classes \<Longrightarrow> one_entry_per_name (set_field c f info classes)"
  using class_names_set_field [of c f info classes]
  by (simp add: one_entry_per_name_def list_all_map_entry)
    (simp add: set_field_def list_all_map_entry)

lemma one_entry_replay:
  "one_entry_per_name classes \<Longrightarrow> one_entry_per_name (replay ms classes)"
proof (induction ms arbitrary: classes)
  case Nil
  then show ?case by simp
next
  case (Cons m ms)
  then show ?case
    by (cases m) (simp_all add: one_entry_ensure_class one_entry_set_field)
qed

lemma one_entry_empty: "one_entry_per_name []"
  by (simp add: one_entry_per_name_def class_names_def)

subsection \<open>Which assignments the walk performs\<close>

lemma last_assigned_Some_iff:
  "(\<exists>info. last_assigned ms c f = Some info) \<longleftrightarrow> (\<exists>info. Assign c f info \<in> set ms)"
  by (induction ms c f rule: last_assigned.induct) (auto split: option.splits)

lemma writes_fields_Cons_set:
  "set (writes_fields lib ((key, v) # remaining) cn) =
     set (writes_fields lib [(key, v)] cn) \<union> set (writes_fields lib remaining cn)"
  by (simp add: writes_fields.simps(2))

lemma writes_fields_mono:
  "(key, v) \<in> set obj \<Longrightarrow>
   set (writes_fields lib [(key, v)] cn) \<subseteq> set (writes_fields lib obj cn)"
proof (induction obj)
  case Nil
  then show ?case by simp
next
  case (Cons kv obj)
  obtain key' v' where kv: "kv = (key', v')" by (cases kv)
  from Cons show ?case
    unfolding kv writes_fields_Cons_set [of lib key' v' obj cn] by auto
qed

lemma assign_in_writes_fields:
  "(key, v) \<in> set obj \<Longrightarrow>
   Assign cn (to_camel_case key) \<lparr>type = get_java_type lib v key, original_name = key\<rparr>
     \<in> set (writes_fields lib obj cn)"
  using writes_fields_mono [of key v obj lib cn]
  by (auto simp: writes_fields.simps(2))

lemma assign_in_writes_object:
  "(key, v) \<in> set obj \<Longrightarrow>
   Assign cn (to_camel_case key) \<lparr>type = get_java_type lib v key, original_name = key\<rparr>
     \<in> set (writes_object lib obj cn)"
  by (simp add: writes_object.simps assign_in_writes_fields)

lemma writes_rest_mono:
  "JObj obj \<in> set xs \<Longrightarrow> set (writes_object lib obj cn) \<subseteq> set (writes_rest lib xs cn)"
  by (induction xs) auto

lemma writes_of_object_list:
  "writes_fields lib [(key, JArr (JObj first_element # others))] cn =
     Assign cn (to_camel_case key)
       \<lparr>type = ''List<'' @ to_pascal_case (rstrip key (CHR ''s'')) @ ''>'', original_name = key\<rparr>
     # writes_object lib first_element (to_pascal_case (rstrip key (CHR ''s'')))
     @ writes_rest lib others (to_pascal_case (rstrip key (CHR ''s'')))"
  by (simp add: writes_fields.simps(2) get_java_type_list)

lemma element_writes_in_list_writes:
  assumes "JObj element \<in> set (JObj first_element # others)"
  shows "set (writes_object lib element (to_pascal_case (rstrip key (CHR ''s''))))
     \<subseteq> set (writes_fields lib [(key, JArr (JObj first_element # others))] cn)"
proof (cases "element = first_element")
  case True
  then show ?thesis by (auto simp: writes_of_object_list)
next
  case False
  with assms have "JObj element \<in> set others" by simp
  from writes_rest_mono [OF this] show ?thesis
    by (auto simp: writes_of_object_list)
qed

section \<open>The schema builder\<close>

text \<open>
  Claim C1. Where an object has a field whose value is a list that starts with an
  object, every object element of the list, not only the first, is visited under the
  singularized, Pascal-cased key: the writes of each element are among the writes of the
  walk, and every field name of every element is a field of that class in the result.
  This holds for any visited object and accumulated map, and so for the root object.
\<close>

theorem list_elements_merged:
  assumes "(key, JArr (JObj first_element # others)) \<in> set obj"
    and "JObj element \<in> set (JObj first_element # others)"
    and "(k, v) \<in> set element"
  shows "set (writes_object lib element (to_pascal_case (rstrip key (CHR ''s''))))
           \<subseteq> set (writes_object lib obj cn)
    \<and> (\<exists>info. field_of (analyze_object lib obj cn classes)
            (to_pascal_case (rstrip key (CHR ''s''))) (to_camel_case k) = Some info)
    \<and> (\<exists>info. field_of (analyze_json_structure lib (JObj obj) cn)
            (to_pascal_case (rstrip key (CHR ''s''))) (to_camel_case k) = Some info)"
proof -
  let ?n = "to_pascal_case (rstrip key (CHR ''s''))"
  have sub: "set (writes_object lib element ?n) \<subseteq> set (writes_object lib obj cn)"
    using element_writes_in_list_writes [OF assms(2), of lib key cn]
      writes_fields_mono [OF assms(1), of lib cn]
    by (auto simp: writes_object.simps [of lib obj])
  from assign_in_writes_object [OF assms(3), of ?n lib] sub
  have "\<exists>info. Assign ?n (to_camel_case k) info \<in> set (writes_object lib obj cn)"
    by blast
  then obtain info where last: "last_assigned (writes_object lib obj cn) ?n (to_camel_case k) = Some info"
    using last_assigned_Some_iff [of "writes_object lib obj cn" ?n "to_camel_case k"] by blast
  have one: "field_of (analyze_object lib obj cn classes) ?n (to_camel_case k) = Some info"
    by (simp add: field_of_analyze_object last)
  have two: "field_of (analyze_json_structure lib (JObj obj) cn) ?n (to_camel_case k) = Some info"
    by (simp add: field_of_analyze_json_structure writes_json_structure_def last)
  from sub one two show ?thesis by blast
qed

theorem list_elements_merged_witness:
  "(\<exists>info. field_of (analyze_json_structure extended_forms
        (JObj [(''items'', JArr [JObj [(''a'', JInt 1)], JObj [(''b'', JInt 2)]])] :: unit json)
        ''Root'') ''Item'' ''a'' = Some info)
   \<and> (\<exists>info. field_of (analyze_json_structure extended_forms
        (JObj [(''items'', JArr [JObj [(''a'', JInt 1)], JObj [(''b'', JInt 2)]])] :: unit json)
        ''Root'') ''Item'' ''b'' = Some info)
   \<and> analyze_json_structure extended_forms
        (JObj [(''items'', JArr [JObj [(''a'', JInt 1)], JObj [(''b'', JInt 2)]])] :: unit json)
        ''Root''
     = [(''Root'', [(''items'', \<lparr>type = ''List<Item>'', original_name = ''items''\<rparr>)]),
        (''Item'', [(''a'', \<lparr>type = ''Integer'', original_name = ''a''\<rparr>),
                    (''b'', \<lparr>type = ''Integer'', original_name = ''b''\<rparr>)])]"
proof -
  let ?obj = "[(''items'', JArr [JObj [(''a'', JInt 1)], JObj [(''b'', JInt 2)]])]
    :: (string \<times> unit json) list"
  have field: "(''items'', JArr (JObj [(''a'', JInt 1)] # [JObj [(''b'', JInt 2)]])) \<in> set ?obj"
    by simp
  have e1: "JObj [(''a'', JInt 1)] \<in> set (JObj [(''a'', JInt 1)] # [JObj [(''b'', JInt 2 :: unit json)]])"
    by simp
  have e2: "JObj [(''b'', JInt 2)] \<in> set (JObj [(''a'', JInt 1)] # [JObj [(''b'', JInt 2 :: unit json)]])"
    by simp
  have k1: "(''a'', JInt 1) \<in> set [(''a'', JInt 1 :: unit json)]"
    by simp
  have k2: "(''b'', JInt 2) \<in> set [(''b'', JInt 2 :: unit json)]"
    by simp
  have names: "to_pascal_case (rstrip ''items'' (CHR ''s'')) = ''Item''"
      "to_camel_case ''a'' = ''a''" "to_camel_case ''b'' = ''b''"
    by (simp_all add: naming_defs)
  note a = list_elements_merged [OF field e1 k1, of extended_forms "''Root''" "[]",
      THEN conjunct2, THEN conjunct2, unfolded names]
  note b = list_elements_merged [OF field e2 k2, of extended_forms "''Root''" "[]",
      THEN conjunct2, THEN conjunct2, unfolded names]
  have whole: "analyze_json_structure extended_forms (JObj ?obj) ''Root''
     = [(''Root'', [(''items'', \<lparr>type = ''List<Item>'', original_name = ''items''\<rparr>)]),
        (''Item'', [(''a'', \<lparr>type = ''Integer'', original_name = ''a''\<rparr>),
                    (''b'', \<lparr>type = ''Integer'', original_name = ''b''\<rparr>)])]"
    by (simp add: walk_simps)
  from a b whole show ?thesis by blast
qed


text \<open>
  Claim C4. In the schema map every class name and, within a class, every field name
  has exactly one entry. The map is what replaying the writes of the walk gives, and the
  entry of a field is the descriptor of the last assignment to that field of that class
  among the writes of the walk: where two visited objects give the same field a
  different type, the later one stands.
\<close>

theorem one_descriptor_last_write_wins:
  "list_all (\<lambda>(c, fs). distinct (map fst fs)) (analyze_json_structure lib data root)
   \<and> distinct (class_names (analyze_json_structure lib data root))
   \<and> analyze_json_structure lib data root = replay (writes_json_structure lib data root) []
   \<and> field_of (analyze_json_structure lib data root) c f
        = last_assigned (writes_json_structure lib data root) c f"
proof -
  have "one_entry_per_name (analyze_json_structure lib data root)"
    unfolding analyze_json_structure_is_replay
    by (rule one_entry_replay [OF one_entry_empty])
  then show ?thesis
    using field_of_analyze_json_structure [of lib data root c f]
      analyze_json_structure_is_replay [of lib data root]
    unfolding one_entry_per_name_def by blast
qed

theorem one_descriptor_last_write_wins_witness:
  "writes_json_structure extended_forms
      (JObj [(''items'', JArr [JObj [(''x'', JStr ''5'')], JObj [(''x'', JInt 5)]])] :: unit json)
      ''Root''
     = [Ensure ''Root'',
        Assign ''Root'' ''items'' \<lparr>type = ''List<Item>'', original_name = ''items''\<rparr>,
        Ensure ''Item'',
        Assign ''Item'' ''x'' \<lparr>type = ''String'', original_name = ''x''\<rparr>,
        Ensure ''Item'',
        Assign ''Item'' ''x'' \<lparr>type = ''Integer'', original_name = ''x''\<rparr>]
   \<and> field_of (analyze_json_structure extended_forms
        (JObj [(''items'', JArr [JObj [(''x'', JStr ''5'')], JObj [(''x'', JInt 5)]])] :: unit json)
        ''Root'') ''Item'' ''x''
     = Some \<lparr>type = ''Integer'', original_name = ''x''\<rparr>
   \<and> analyze_json_structure extended_forms
        (JObj [(''items'', JArr [JObj [(''x'', JStr ''5'')], JObj [(''x'', JInt 5)]])] :: unit json)
        ''Root''
     = [(''Root'', [(''items'', \<lparr>type = ''List<Item>'', original_name = ''items''\<rparr>)]),
        (''Item'', [(''x'', \<lparr>type = ''Integer'', original_name = ''x''\<rparr>)])]"
proof -
  let ?data = "JObj [(''items'', JArr [JObj [(''x'', JStr ''5'')], JObj [(''x'', JInt 5)]])]
    :: unit json"
  have w: "writes_json_structure extended_forms ?data ''Root''
     = [Ensure ''Root'',
        Assign ''Root'' ''items'' \<lparr>type = ''List<Item>'', original_name = ''items''\<rparr>,
        Ensure ''Item'',
        Assign ''Item'' ''x'' \<lparr>type = ''String'', original_name = ''x''\<rparr>,
        Ensure ''Item'',
        Assign ''Item'' ''x'' \<lparr>type = ''Integer'', original_name = ''x''\<rparr>]"
    by (simp add: writes_simps sample_defs)
  note r = one_descriptor_last_write_wins [of extended_forms ?data "''Root''" "''Item''" "''x''"]
  have f: "field_of (analyze_json_structure extended_forms ?data ''Root'') ''Item'' ''x''
     = Some \<lparr>type = ''Integer'', original_name = ''x''\<rparr>"
    using r [THEN conjunct2, THEN conjunct2, THEN conjunct2] by (simp add: w)
  have a: "analyze_json_structure extended_forms ?data ''Root''
     = [(''Root'', [(''items'', \<lparr>type = ''List<Item>'', original_name = ''items''\<rparr>)]),
        (''Item'', [(''x'', \<lparr>type = ''Integer'', original_name = ''x''\<rparr>)])]"
    using r [THEN conjunct2, THEN conjunct2, THEN conjunct1]
    by (simp add: w ensure_class_def set_field_def)
  from w f a show ?thesis by blast
qed

lemma analyze_rest_objects:
  "analyze_rest lib (map JObj objs) cn classes
     = fold (\<lambda>obj classes. analyze_object lib obj cn classes) objs classes"
  by (induction objs arbitrary: classes) simp_all

lemma writes_rest_objects:
  "writes_rest lib (map JObj objs) cn = concat (map (\<lambda>obj. writes_object lib obj cn) objs)"
  by (induction objs) simp_all

lemma class_names_analyze_object:
  "set (class_names (analyze_object lib obj cn classes))
     = set (class_names classes) \<union> set (class_names (analyze_object lib obj cn []))"
  by (simp add: analyze_is_replay class_names_replay class_names_Nil)

lemma class_names_fold:
  "set (class_names (fold (\<lambda>obj classes. analyze_object lib obj cn classes) objs classes))
     = set (class_names classes)
       \<union> (\<Union>obj \<in> set objs. set (class_names (analyze_object lib obj cn [])))"
proof (induction objs arbitrary: classes)
  case Nil
  show ?case by simp
next
  case (Cons obj objs)
  show ?case
    using class_names_analyze_object [of lib obj cn classes]
    by (simp add: Cons.IH class_names_Nil) blast
qed

lemma created_writes_object: "cn \<in> created (writes_object lib obj cn)"
  by (simp add: writes_object.simps)

lemma created_concat: "created (concat xss) = (\<Union>xs \<in> set xss. created xs)"
  by (induction xss) simp_all

lemma field_assigned:
  assumes "Assign c f info \<in> set (writes_json_structure lib data root)"
  shows "\<exists>info'. field_of (analyze_json_structure lib data root) c f = Some info'"
  using assms last_assigned_Some_iff [of "writes_json_structure lib data root" c f]
  by (auto simp: field_of_analyze_json_structure)

text \<open>
  Claim C7. A root object is visited directly under the root class name: the root class
  is in the result and every key of the object is a field of it. A non-empty root list
  of objects has every element visited under the root class name: the root class is in
  the result and every key of every element is a field of it. The list itself gets no
  class: the result is the fold of the visits of the elements, its classes are the
  classes of the elements, and a list of two flat objects gives the one class \<open>Root\<close>.
\<close>

theorem root_visited_under_root_class_name:
  fixes obj :: "(string \<times> 'f json) list" and objs :: "(string \<times> 'f json) list list"
  shows
  "root \<in> set (class_names (analyze_json_structure lib (JObj obj) root))
   \<and> (\<forall>k v. (k, v) \<in> set obj \<longrightarrow>
         (\<exists>info. field_of (analyze_json_structure lib (JObj obj) root) root (to_camel_case k)
            = Some info))
   \<and> (objs \<noteq> [] \<longrightarrow>
         root \<in> set (class_names (analyze_json_structure lib (JArr (map JObj objs)) root)))
   \<and> (\<forall>element k v. element \<in> set objs \<longrightarrow> (k, v) \<in> set element \<longrightarrow>
         (\<exists>info. field_of (analyze_json_structure lib (JArr (map JObj objs)) root) root
            (to_camel_case k) = Some info))
   \<and> analyze_json_structure lib (JArr (map JObj objs)) root
       = fold (\<lambda>obj classes. analyze_object lib obj root classes) objs []
   \<and> set (class_names (analyze_json_structure lib (JArr (map JObj objs)) root))
       = (\<Union>obj \<in> set objs. set (class_names (analyze_json_structure lib (JObj obj) root)))
   \<and> analyze_json_structure lib (JArr [JObj [(''a'', JInt 1)], JObj [(''b'', JInt 2)]]) ''Root''
       = [(''Root'', [(''a'', \<lparr>type = ''Integer'', original_name = ''a''\<rparr>),
                      (''b'', \<lparr>type = ''Integer'', original_name = ''b''\<rparr>)])]"
proof -
  have obj_writes: "writes_json_structure lib (JObj obj) root = writes_object lib obj root"
    for obj :: "(string \<times> 'f json) list"
    by (simp add: writes_json_structure_def)
  have list_writes: "writes_json_structure lib (JArr (map JObj objs)) root
       = concat (map (\<lambda>obj. writes_object lib obj root) objs)"
    by (cases objs) (simp_all add: writes_json_structure_def writes_rest_objects)
  have c1: "root \<in> set (class_names (analyze_json_structure lib (JObj obj) root))"
    by (simp add: analyze_json_structure_is_replay class_names_replay obj_writes
        created_writes_object)
  have c2: "\<forall>k v. (k, v) \<in> set obj \<longrightarrow>
         (\<exists>info. field_of (analyze_json_structure lib (JObj obj) root) root (to_camel_case k)
            = Some info)"
  proof (intro allI impI)
    fix k v
    assume "(k, v) \<in> set obj"
    from assign_in_writes_object [OF this, of root lib]
    show "\<exists>info. field_of (analyze_json_structure lib (JObj obj) root) root (to_camel_case k)
            = Some info"
      by (intro field_assigned) (simp add: obj_writes)
  qed
  have c3: "objs \<noteq> [] \<longrightarrow>
         root \<in> set (class_names (analyze_json_structure lib (JArr (map JObj objs)) root))"
  proof
    assume "objs \<noteq> []"
    then obtain first_obj others where "objs = first_obj # others"
      by (cases objs) auto
    then have "root \<in> created (concat (map (\<lambda>obj. writes_object lib obj root) objs))"
      by (simp add: created_writes_object)
    then show "root \<in> set (class_names (analyze_json_structure lib (JArr (map JObj objs)) root))"
      by (simp add: analyze_json_structure_is_replay class_names_replay list_writes)
  qed
  have c4: "\<forall>element k v. element \<in> set objs \<longrightarrow> (k, v) \<in> set element \<longrightarrow>
         (\<exists>info. field_of (analyze_json_structure lib (JArr (map JObj objs)) root) root
            (to_camel_case k) = Some info)"
  proof (intro allI impI)
    fix element k v
    assume el: "element \<in> set objs" and kv: "(k, v) \<in> set element"
    from assign_in_writes_object [OF kv, of root lib] el
    have "Assign root (to_camel_case k) \<lparr>type = get_java_type lib v k, original_name = k\<rparr>
        \<in> set (writes_json_structure lib (JArr (map JObj objs)) root)"
      by (auto simp: list_writes)
    then show "\<exists>info. field_of (analyze_json_structure lib (JArr (map JObj objs)) root) root
            (to_camel_case k) = Some info"
      by (rule field_assigned)
  qed
  have obj_eq: "analyze_json_structure lib (JObj obj) root = analyze_object lib obj root []"
    for obj :: "(string \<times> 'f json) list"
    by (simp add: analyze_json_structure_def)
  have c5: "analyze_json_structure lib (JArr (map JObj objs)) root
       = fold (\<lambda>obj classes. analyze_object lib obj root classes) objs []"
    by (cases objs) (simp_all add: analyze_json_structure_def analyze_rest_objects)
  have c6: "set (class_names (analyze_json_structure lib (JArr (map JObj objs)) root))
       = (\<Union>obj \<in> set objs. set (class_names (analyze_json_structure lib (JObj obj) root)))"
    by (simp add: c5 obj_eq class_names_fold class_names_Nil)
  have c7: "analyze_json_structure lib (JArr [JObj [(''a'', JInt 1)], JObj [(''b'', JInt 2)]]) ''Root''
       = [(''Root'', [(''a'', \<lparr>type = ''Integer'', original_name = ''a''\<rparr>),
                      (''b'', \<lparr>type = ''Integer'', original_name = ''b''\<rparr>)])]"
    by (simp add: walk_simps Let_def)
  show ?thesis
    by (intro conjI) (rule c1 c2 c3 c4 c5 c6 c7)+
qed

theorem root_visited_under_root_class_name_witness:
  "''Root'' \<in> set (class_names (analyze_json_structure extended_forms
       (JArr (map JObj [[(''a'', JInt 1)], [(''b'', JInt 2)]]) :: unit json) ''Root''))
   \<and> (\<exists>info. field_of (analyze_json_structure extended_forms
       (JArr (map JObj [[(''a'', JInt 1)], [(''b'', JInt 2)]]) :: unit json) ''Root'')
         ''Root'' ''a'' = Some info)
   \<and> (\<exists>info. field_of (analyze_json_structure extended_forms
       (JArr (map JObj [[(''a'', JInt 1)], [(''b'', JInt 2)]]) :: unit json) ''Root'')
         ''Root'' ''b'' = Some info)
   \<and> class_names (analyze_json_structure extended_forms
       (JArr (map JObj [[(''a'', JInt 1)], [(''b'', JInt 2)]]) :: unit json) ''Root'') = [''Root'']"
proof -
  let ?objs = "[[(''a'', JInt 1)], [(''b'', JInt 2)]] :: (string \<times> unit json) list list"
  note r = root_visited_under_root_class_name [of "''Root''" extended_forms "[]" ?objs]
  have ne: "?objs \<noteq> []" by simp
  have names: "to_camel_case ''a'' = ''a''" "to_camel_case ''b'' = ''b''"
    by (simp_all add: naming_defs)
  from r [THEN conjunct2, THEN conjunct2, THEN conjunct1] have c3: "?objs \<noteq> [] \<longrightarrow>
      ''Root'' \<in> set (class_names (analyze_json_structure extended_forms
         (JArr (map JObj ?objs)) ''Root''))"
    .
  from r [THEN conjunct2, THEN conjunct2, THEN conjunct2, THEN conjunct1] have c4: "\<forall>element k v. element \<in> set ?objs \<longrightarrow> (k, v) \<in> set element \<longrightarrow>
         (\<exists>info. field_of (analyze_json_structure extended_forms (JArr (map JObj ?objs)) ''Root'')
            ''Root'' (to_camel_case k) = Some info)"
    .
  from c3 [rule_format, OF ne] have a: "''Root'' \<in> set (class_names (analyze_json_structure extended_forms
         (JArr (map JObj ?objs)) ''Root''))"
    .
  from c4 [rule_format, of "[(''a'', JInt 1)]" "''a''" "JInt 1"]
  have b: "\<exists>info. field_of (analyze_json_structure extended_forms (JArr (map JObj ?objs)) ''Root'')
            ''Root'' ''a'' = Some info"
    by (simp add: names)
  from c4 [rule_format, of "[(''b'', JInt 2)]" "''b''" "JInt 2"]
  have c: "\<exists>info. field_of (analyze_json_structure extended_forms (JArr (map JObj ?objs)) ''Root'')
            ''Root'' ''b'' = Some info"
    by (simp add: names)
  have d: "class_names (analyze_json_structure extended_forms (JArr (map JObj ?objs)) ''Root'')
      = [''Root'']"
    by (simp add: walk_simps Let_def class_names_def)
  show ?thesis
    by (intro conjI) (rule a b c d)+
qed

text \<open>
  Claim C9. Singularization removes every trailing \<open>s\<close> of the key before Pascal-casing:
  \<open>address\<close> gives \<open>Addre\<close> and \<open>boss\<close> gives \<open>Bo\<close>, and any number of appended
  \<open>s\<close> characters is removed. The same name is the element type of the list and the
  class under which the elements are visited.
\<close>

theorem singularization_strips_every_trailing_s:
  "to_pascal_case (rstrip ''address'' (CHR ''s'')) = ''Addre''
   \<and> to_pascal_case (rstrip ''boss'' (CHR ''s'')) = ''Bo''
   \<and> rstrip (key @ replicate n (CHR ''s'')) (CHR ''s'') = rstrip key (CHR ''s'')
   \<and> get_java_type lib (JArr (JObj first_element # others)) key
       = java_name (ListOf (ObjectRef (to_pascal_case (rstrip key (CHR ''s'')))))
   \<and> analyze_fields lib ((key, JArr (JObj first_element # others)) # remaining) cn classes
       = analyze_fields lib remaining cn
           (analyze_rest lib others (to_pascal_case (rstrip key (CHR ''s'')))
             (analyze_object lib first_element (to_pascal_case (rstrip key (CHR ''s'')))
               (set_field cn (to_camel_case key)
                  \<lparr>type = java_name (ListOf (ObjectRef (to_pascal_case (rstrip key (CHR ''s''))))),
                   original_name = key\<rparr> classes)))
   \<and> analyze_json_structure lib
        (JObj [(''address'', JArr [JObj [(''zip'', JInt 10001)]]),
               (''boss'', JArr [JObj [(''id'', JInt 7)]])]) ''Root''
     = [(''Root'', [(''address'', \<lparr>type = ''List<Addre>'', original_name = ''address''\<rparr>),
                    (''boss'', \<lparr>type = ''List<Bo>'', original_name = ''boss''\<rparr>)]),
        (''Addre'', [(''zip'', \<lparr>type = ''Integer'', original_name = ''zip''\<rparr>)]),
        (''Bo'', [(''id'', \<lparr>type = ''Integer'', original_name = ''id''\<rparr>)])]"
proof -
  have a: "to_pascal_case (rstrip ''address'' (CHR ''s'')) = ''Addre''"
    by (simp add: naming_defs)
  have b: "to_pascal_case (rstrip ''boss'' (CHR ''s'')) = ''Bo''"
    by (simp add: naming_defs)
  have c: "rstrip (key @ replicate n (CHR ''s'')) (CHR ''s'') = rstrip key (CHR ''s'')"
    using dropWhile_append2 [of "replicate n (CHR ''s'')" "\<lambda>x. x = CHR ''s''" "rev key"]
    by (simp add: rstrip_def)
  have d: "get_java_type lib (JArr (JObj first_element # others)) key
       = java_name (ListOf (ObjectRef (to_pascal_case (rstrip key (CHR ''s'')))))"
    by (simp add: get_java_type_list)
  have e: "analyze_fields lib ((key, JArr (JObj first_element # others)) # remaining) cn classes
       = analyze_fields lib remaining cn
           (analyze_rest lib others (to_pascal_case (rstrip key (CHR ''s'')))
             (analyze_object lib first_element (to_pascal_case (rstrip key (CHR ''s'')))
               (set_field cn (to_camel_case key)
                  \<lparr>type = java_name (ListOf (ObjectRef (to_pascal_case (rstrip key (CHR ''s''))))),
                   original_name = key\<rparr> classes)))"
    by (simp add: analyze_fields.simps(2) get_java_type_list Let_def)
  have f: "analyze_json_structure lib
        (JObj [(''address'', JArr [JObj [(''zip'', JInt 10001)]]),
               (''boss'', JArr [JObj [(''id'', JInt 7)]])]) ''Root''
     = [(''Root'', [(''address'', \<lparr>type = ''List<Addre>'', original_name = ''address''\<rparr>),
                    (''boss'', \<lparr>type = ''List<Bo>'', original_name = ''boss''\<rparr>)]),
        (''Addre'', [(''zip'', \<lparr>type = ''Integer'', original_name = ''zip''\<rparr>)]),
        (''Bo'', [(''id'', \<lparr>type = ''Integer'', original_name = ''id''\<rparr>)])]"
    by (simp add: walk_simps Let_def)
  from a b c d e f show ?thesis by blast
qed

text \<open>
  Claim C3, evaluated on the code. For \<open>{"a": {}}\<close> the field \<open>a\<close> gets the type
  \<open>A\<close>, the name of a class, and the schema map has the class \<open>Root\<close> only: the
  reference dangles.
\<close>

theorem empty_object_reference_dangles:
  "analyze_json_structure lib (JObj [(''a'', JObj [])]) ''Root''
     = [(''Root'', [(''a'', \<lparr>type = ''A'', original_name = ''a''\<rparr>)])]
   \<and> get_java_type lib (JObj []) ''a'' = java_name (ObjectRef ''A'')
   \<and> ''A'' \<notin> set (class_names (analyze_json_structure lib (JObj [(''a'', JObj [])]) ''Root''))"
  by (simp add: walk_simps class_names_def Let_def)

end
